theory Spec2Isabelle
  imports Main "HOL-Library.AList" "HOL-Library.Sublist" "HOL-Library.Char_ord"
begin

section \<open>The message handler of \<open>cogs/general.py\<close>\<close>

text \<open>
  The development embeds the \<open>afk\<close> command and the \<open>on_message\<close> listener of the
  \<open>General\<close> cog, together with \<open>PULL_HASH_REGEX\<close> and the nested \<open>make_link\<close>.

  Strings are \<open>string\<close>, read as sequences of code points below 256; on these the class
  \<open>\d\<close> of the regular expression is exactly \<open>[0-9]\<close>. User identifiers are Python
  integers.
\<close>

subsection \<open>Data\<close>

text \<open>
  The attributes of a \<open>discord.Member\<close> that the two handlers read: \<open>id\<close>, \<open>bot\<close>
  (here \<open>bot_flag\<close>), \<open>nick\<close> (\<open>None\<close> when the member has no nickname) and
  \<open>display_name\<close>.
\<close>

record member =
  user_id :: int
  bot_flag :: bool
  nick :: "string option"
  display_name :: string

record message =
  author :: member
  mentions :: "member list"
  content :: string

text \<open>
  Exceptions: \<open>HTTPException\<close> stands for \<open>discord.HTTPException\<close> and its subclasses
  (\<open>Forbidden\<close>, \<open>NotFound\<close>), \<open>OtherError\<close> for an exception of any other class.
\<close>

datatype exn = HTTPException | OtherError

text \<open>
  The calls the handlers make on the messaging client: \<open>message.add_reaction\<close>,
  \<open>author.edit(nick=...)\<close> (with the identifier of the edited member),
  \<open>message.channel.send\<close>, \<open>message.reply\<close> and \<open>ctx.respond\<close>.
\<close>

datatype action =
    AddReaction string
  | EditNick int string
  | ChannelSend string
  | Reply string
  | Respond string

text \<open>
  The state is the dictionary \<open>bot.cache["afk"]\<close>, an association list from user
  identifier to reason in insertion order, and the sequence of calls issued so far on the
  messaging client. A call is recorded when it is issued, whether or not it then raises.
\<close>

record state =
  afk_cache :: "(int \<times> string) list"
  calls :: "action list"

text \<open>
  What the handlers do not decide: whether a call on the messaging client raises, given
  the calls issued before it, and the order in which Python iterates over the \<open>set\<close>
  built from a sequence of strings.
\<close>

record env =
  outcome :: "action list \<Rightarrow> action \<Rightarrow> exn option"
  set_order :: "string list \<Rightarrow> string list"

text \<open>
  A Python \<open>set\<close> holds each element once and nothing else: \<open>list(set(xs))\<close> lists the
  elements of \<open>xs\<close> without repetition, in an order the language leaves open.
\<close>

definition python_set :: "env \<Rightarrow> bool" where
  "python_set env = (\<forall>xs. distinct (set_order env xs) \<and> set (set_order env xs) = set xs)"

definition call :: "env \<Rightarrow> state \<Rightarrow> action \<Rightarrow> exn option \<times> state" where
  "call env s a = (outcome env (calls s) a, s\<lparr>calls := calls s @ [a]\<rparr>)"

text \<open>\<open>with suppress(discord.HTTPException)\<close>: that exception is dropped, any other passes.\<close>

definition suppress :: "exn option \<Rightarrow> exn option" where
  "suppress r = (case r of Some HTTPException \<Rightarrow> None | Some e \<Rightarrow> Some e | None \<Rightarrow> None)"

definition startswith :: "string \<Rightarrow> string \<Rightarrow> bool" where
  "startswith s p = (take (length p) s = p)"

text \<open>The emoji U+1F44B (waving hand), written by its UTF-8 bytes.\<close>

definition wave :: string where
  "wave = [CHR 0xF0, CHR 0x9F, CHR 0x91, CHR 0x8B]"

subsection \<open>The regular expression\<close>

text \<open>
  \<^verbatim>\<open>(?:(?P<org>(?:[A-Za-z]|\d|-)+)/)?(?P<repo>(?:[A-Za-z]|\d|-)+)?(?:##)(?P<index>[0-9]+)\<close>

  \<open>name_char\<close> is the class \<open>(?:[A-Za-z]|\d|-)\<close> and \<open>index_char\<close> the class \<open>[0-9]\<close>.
\<close>

definition index_char :: "char \<Rightarrow> bool" where
  "index_char c = (CHR ''0'' \<le> c \<and> c \<le> CHR ''9'')"

definition name_char :: "char \<Rightarrow> bool" where
  "name_char c =
     ((CHR ''A'' \<le> c \<and> c \<le> CHR ''Z'') \<or> (CHR ''a'' \<le> c \<and> c \<le> CHR ''z'')
      \<or> index_char c \<or> c = CHR ''-'')"

text \<open>
  The end of a match: the literal \<open>##\<close> and the longest run of digits, which must not be
  empty. The result holds the three groups and the text after the match.
\<close>

definition match_index ::
  "string \<Rightarrow> string \<Rightarrow> string \<Rightarrow> ((string \<times> string \<times> string) \<times> string) option" where
  "match_index org repo s =
     (case s of
        a # b # t \<Rightarrow>
          if a = CHR ''#'' \<and> b = CHR ''#'' \<and> takeWhile index_char t \<noteq> []
          then Some ((org, repo, takeWhile index_char t), dropWhile index_char t)
          else None
      | _ \<Rightarrow> None)"

text \<open>
  A match of \<open>PULL_HASH_REGEX\<close> at the start of \<open>s\<close>. The quantifiers are greedy and
  neither \<open>/\<close> nor \<open>#\<close> is a name character, so backtracking finds nothing that the
  longest runs do not: a shorter run of name characters is followed by a name character,
  where the pattern wants \<open>/\<close> or \<open>#\<close>. The group \<open>org\<close> takes part when the longest
  run at the start is not empty and a \<open>/\<close> follows it; \<open>repo\<close> is then the longest run
  after the \<open>/\<close>. Otherwise \<open>repo\<close> is the longest run at the start. A group that takes
  no part is the empty string, as \<open>findall\<close> reports it.
\<close>

definition match_at :: "string \<Rightarrow> ((string \<times> string \<times> string) \<times> string) option" where
  "match_at s =
     (let run = takeWhile name_char s; rest = dropWhile name_char s
      in if run \<noteq> [] \<and> rest \<noteq> [] \<and> hd rest = CHR ''/''
         then match_index run (takeWhile name_char (tl rest)) (dropWhile name_char (tl rest))
         else match_index [] run rest)"

lemma match_index_shorter:
  "match_index org repo s = Some (g, r) \<Longrightarrow> length r < length s"
proof -
  assume m: "match_index org repo s = Some (g, r)"
  then obtain a b t where s: "s = a # b # t" and r: "r = dropWhile index_char t"
    by (auto simp: match_index_def split: list.splits if_splits)
  have "length (dropWhile index_char t) \<le> length t"
    by (rule length_dropWhile_le)
  with s r show ?thesis by simp
qed

lemma match_at_shorter:
  "match_at s = Some (g, r) \<Longrightarrow> length r < length s"
proof -
  assume m: "match_at s = Some (g, r)"
  have d: "length (dropWhile name_char s) \<le> length s"
    by (rule length_dropWhile_le)
  show ?thesis
  proof (cases "takeWhile name_char s \<noteq> [] \<and> dropWhile name_char s \<noteq> []
                \<and> hd (dropWhile name_char s) = CHR ''/''")
    case True
    with m have "length r < length (dropWhile name_char (tl (dropWhile name_char s)))"
      by (auto simp: match_at_def Let_def dest: match_index_shorter)
    also have "\<dots> \<le> length (tl (dropWhile name_char s))"
      by (rule length_dropWhile_le)
    also have "\<dots> \<le> length s"
      using d by simp
    finally show ?thesis .
  next
    case False
    with m have "length r < length (dropWhile name_char s)"
      by (auto simp: match_at_def Let_def dest: match_index_shorter)
    with d show ?thesis by simp
  qed
qed

text \<open>
  \<open>PULL_HASH_REGEX.findall\<close>: the matches from left to right, without overlap. After a
  match the scan goes on behind it; where nothing matches it moves one character on.
\<close>

function findall :: "string \<Rightarrow> (string \<times> string \<times> string) list" where
  "findall s =
     (case match_at s of
        Some (g, r) \<Rightarrow> g # findall r
      | None \<Rightarrow> (case s of [] \<Rightarrow> [] | _ # t \<Rightarrow> findall t))"
  by pat_completeness auto
termination
  by (relation "measure length") (auto dest: match_at_shorter)

declare findall.simps [simp del]

subsection \<open>Links\<close>

definition make_link :: "string \<Rightarrow> string \<Rightarrow> string \<Rightarrow> string" where
  "make_link index org repo =
     ''https://github.com/'' @ (if org \<noteq> [] then org else ''Pycord-Development'')
       @ ''/'' @ (if repo \<noteq> [] then repo else ''pycord'') @ ''/pull/'' @ index"

text \<open>The generator under \<open>set(...)\<close>: one link for each match, in the order of the matches.\<close>

definition generated_links :: "string \<Rightarrow> string list" where
  "generated_links c = map (\<lambda>(org, repo, index). make_link index org repo) (findall c)"

text \<open>\<open>list(set(...))[:15]\<close>\<close>

definition links_of :: "env \<Rightarrow> string \<Rightarrow> string list" where
  "links_of env c = take 15 (set_order env (generated_links c))"

definition bracket :: "string \<Rightarrow> string" where
  "bracket link = ''<'' @ link @ ''>''"

text \<open>The list after \<open>if len(links) > 2: links = [f"<{link}>" for link in links]\<close>.\<close>

definition reply_links :: "env \<Rightarrow> string \<Rightarrow> string list" where
  "reply_links env c =
     (let links = links_of env c
      in if length links > 2 then map bracket links else links)"

text \<open>\<open>sep.join(xs)\<close>\<close>

fun join :: "string \<Rightarrow> string list \<Rightarrow> string" where
  "join sep [] = []"
| "join sep [x] = x"
| "join sep (x # y # ys) = x @ sep @ join sep (y # ys)"

definition newline :: string where
  "newline = [CHR 0x0A]"

subsection \<open>The \<open>afk\<close> command\<close>

text \<open>
  \<open>afk(ctx, reason, change_nick)\<close>, with the author of the context as argument. An
  exception raised by \<open>ctx.respond\<close> leaves the command before the dictionary is written.
\<close>

definition afk :: "env \<Rightarrow> state \<Rightarrow> member \<Rightarrow> string \<Rightarrow> bool \<Rightarrow> exn option \<times> state" where
  "afk env s ctx_author reason change_nick =
     (case call env s (Respond (''Set your AFK: '' @ reason)) of
        (Some e, s1) \<Rightarrow> (Some e, s1)
      | (None, s1) \<Rightarrow>
          (let s2 = s1\<lparr>afk_cache := AList.update (user_id ctx_author) reason (afk_cache s1)\<rparr>
           in if change_nick \<and> \<not> startswith (display_name ctx_author) ''[AFK] ''
              then (case call env s2
                           (EditNick (user_id ctx_author) (''[AFK] '' @ display_name ctx_author)) of
                      (r, s3) \<Rightarrow> (suppress r, s3))
              else (None, s2)))"

subsection \<open>The \<open>on_message\<close> listener\<close>

text \<open>
  The block under \<open># AFK\<close> up to the loop: the entry of the author is deleted, the
  reaction added and, where the nickname is not empty and starts with \<open>[AFK] \<close>, the
  nickname edited under \<open>suppress\<close>. The reaction is added outside \<open>suppress\<close>.
\<close>

definition afk_clear :: "env \<Rightarrow> state \<Rightarrow> message \<Rightarrow> exn option \<times> state" where
  "afk_clear env s m =
     (if map_of (afk_cache s) (user_id (author m)) \<noteq> None
      then (case call env (s\<lparr>afk_cache := AList.delete (user_id (author m)) (afk_cache s)\<rparr>)
                       (AddReaction wave) of
              (Some e, s2) \<Rightarrow> (Some e, s2)
            | (None, s2) \<Rightarrow>
                (case nick (author m) of
                   Some n \<Rightarrow>
                     if n \<noteq> [] \<and> startswith n ''[AFK] ''
                     then (case call env s2 (EditNick (user_id (author m)) (drop 6 n)) of
                             (r, s3) \<Rightarrow> (suppress r, s3))
                     else (None, s2)
                 | None \<Rightarrow> (None, s2)))
      else (None, s))"

text \<open>
  The loop over \<open>message.mentions\<close>. \<open>if msg := cache.get(mention.id)\<close> tests the reason
  for truth: an entry with the empty reason sends nothing.
\<close>

fun afk_notify :: "env \<Rightarrow> state \<Rightarrow> member list \<Rightarrow> exn option \<times> state" where
  "afk_notify env s [] = (None, s)"
| "afk_notify env s (mention # rest) =
     (case map_of (afk_cache s) (user_id mention) of
        Some msg \<Rightarrow>
          if msg \<noteq> []
          then (case call env s (ChannelSend (display_name mention @ '' is AFK: '' @ msg)) of
                  (Some e, s1) \<Rightarrow> (Some e, s1)
                | (None, s1) \<Rightarrow> afk_notify env s1 rest)
          else afk_notify env s rest
      | None \<Rightarrow> afk_notify env s rest)"

text \<open>The block under \<open># Pull requests and issues\<close>.\<close>

definition expand_links :: "env \<Rightarrow> state \<Rightarrow> message \<Rightarrow> exn option \<times> state" where
  "expand_links env s m =
     (let links = reply_links env (content m)
      in if links \<noteq> [] then call env s (Reply (join newline links)) else (None, s))"

definition on_message :: "env \<Rightarrow> state \<Rightarrow> message \<Rightarrow> exn option \<times> state" where
  "on_message env s m =
     (if bot_flag (author m) then (None, s)
      else (case afk_clear env s m of
              (Some e, s1) \<Rightarrow> (Some e, s1)
            | (None, s1) \<Rightarrow>
                (case afk_notify env s1 (mentions m) of
                   (Some e, s2) \<Rightarrow> (Some e, s2)
                 | (None, s2) \<Rightarrow> expand_links env s2 m)))"

subsection \<open>Reading the record of calls\<close>

text \<open>The calls that an invocation added, from the state before it and the state after it.\<close>

definition new_calls :: "state \<Rightarrow> state \<Rightarrow> action list" where
  "new_calls s s' = drop (length (calls s)) (calls s')"

fun reactions :: "action list \<Rightarrow> string list" where
  "reactions [] = []"
| "reactions (AddReaction e # as) = e # reactions as"
| "reactions (_ # as) = reactions as"

fun channel_sends :: "action list \<Rightarrow> string list" where
  "channel_sends [] = []"
| "channel_sends (ChannelSend t # as) = t # channel_sends as"
| "channel_sends (_ # as) = channel_sends as"

fun replies :: "action list \<Rightarrow> string list" where
  "replies [] = []"
| "replies (Reply t # as) = t # replies as"
| "replies (_ # as) = replies as"

fun nick_edits :: "action list \<Rightarrow> (int \<times> string) list" where
  "nick_edits [] = []"
| "nick_edits (EditNick u n # as) = (u, n) # nick_edits as"
| "nick_edits (_ # as) = nick_edits as"

text \<open>
  The notices that a list of mentions is due against a dictionary: for each mention, in
  order, whose user has an entry with a reason that is not empty, the line
  \<open>"{display_name} is AFK: {reason}"\<close>.
\<close>

definition due_notices :: "(int \<times> string) list \<Rightarrow> member list \<Rightarrow> string list" where
  "due_notices cache ms =
     concat (map (\<lambda>x. case map_of cache (user_id x) of
                         Some r \<Rightarrow> if r \<noteq> [] then [display_name x @ '' is AFK: '' @ r] else []
                       | None \<Rightarrow> []) ms)"


text \<open>The invariant of the dictionary: no user identifier has two entries.\<close>

definition afk_invariant :: "(int \<times> string) list \<Rightarrow> bool" where
  "afk_invariant cache = distinct (map fst cache)"

subsection \<open>Sample data\<close>

text \<open>
  An environment in which no call raises and a set lists its elements without repetition,
  each at the place of its last occurrence.
\<close>

definition calm :: env where
  "calm = \<lparr>outcome = (\<lambda>h a. None), set_order = remdups\<rparr>"

text \<open>The same with sets listed from the last element seen to the first.\<close>

definition backwards :: env where
  "backwards = \<lparr>outcome = (\<lambda>h a. None), set_order = (\<lambda>xs. rev (remdups xs))\<rparr>"

text \<open>Adding a reaction is refused.\<close>

definition no_reactions :: env where
  "no_reactions =
     \<lparr>outcome = (\<lambda>h a. case a of AddReaction e \<Rightarrow> Some HTTPException | _ \<Rightarrow> None),
      set_order = remdups\<rparr>"

text \<open>Editing a nickname is refused.\<close>

definition no_nick_edits :: env where
  "no_nick_edits =
     \<lparr>outcome = (\<lambda>h a. case a of EditNick u n \<Rightarrow> Some HTTPException | _ \<Rightarrow> None),
      set_order = remdups\<rparr>"

text \<open>Only the edit of the nickname of user 1 is refused.\<close>

definition own_edit_refused :: env where
  "own_edit_refused =
     \<lparr>outcome = (\<lambda>h a. case a of EditNick u n \<Rightarrow> if u = 1 then Some HTTPException else None
                                 | _ \<Rightarrow> None),
      set_order = remdups\<rparr>"

text \<open>Editing a nickname fails with an exception that is not an \<open>HTTPException\<close>.\<close>

definition edit_crashes :: env where
  "edit_crashes =
     \<lparr>outcome = (\<lambda>h a. case a of EditNick u n \<Rightarrow> Some OtherError | _ \<Rightarrow> None),
      set_order = remdups\<rparr>"

definition alice :: member where
  "alice = \<lparr>user_id = 1, bot_flag = False, nick = Some ''[AFK] Alice'', display_name = ''[AFK] Alice''\<rparr>"

definition bob :: member where
  "bob = \<lparr>user_id = 2, bot_flag = False, nick = None, display_name = ''Bob''\<rparr>"

definition robot :: member where
  "robot = \<lparr>user_id = 3, bot_flag = True, nick = None, display_name = ''Robot''\<rparr>"

text \<open>Alice and Bob are away; nothing has been called yet.\<close>

definition both_away :: state where
  "both_away = \<lparr>afk_cache = [(1, ''brb''), (2, ''lunch'')], calls = []\<rparr>"

text \<open>Alice, who is away, writes and mentions Bob; the text holds one reference.\<close>

definition greeting :: message where
  "greeting = \<lparr>author = alice, mentions = [bob], content = ''see ##1''\<rparr>"

text \<open>Alice, who is away, is the author and is mentioned twice, Bob once.\<close>

definition self_mention :: message where
  "self_mention = \<lparr>author = alice, mentions = [alice, bob, alice], content = ''back''\<rparr>"

text \<open>Bob, who is away, is the author and is mentioned once, Alice twice.\<close>

definition roll_call :: message where
  "roll_call = \<lparr>author = bob, mentions = [alice, bob, alice], content = ''hello''\<rparr>"

definition from_robot :: message where
  "from_robot = \<lparr>author = robot, mentions = [alice], content = ''see ##1''\<rparr>"




definition three_refs :: string where
  "three_refs = ''##1 ##2 ##1 a/b##3''"

definition sixteen_refs :: string where
  "sixteen_refs = ''##1 ##2 ##3 ##4 ##5 ##6 ##7 ##8 ##9 ##10 ##11 ##12 ##13 ##14 ##15 ##16''"

definition twenty_refs :: string where
  "twenty_refs =
     ''##1 ##2 ##3 ##4 ##5 ##6 ##7 ##8 ##9 ##10 ##11 ##12 ##13 ##14 ##15 ##16 ##17 ##18 ##19 ##20''"

section \<open>Properties\<close>

subsection \<open>The steps of \<open>on_message\<close>\<close>

lemma afk_notify_absent:
  "map_of (afk_cache s) (user_id x) = None \<Longrightarrow> afk_notify env s (x # xs) = afk_notify env s xs"
  by simp

lemma afk_notify_empty_reason:
  "map_of (afk_cache s) (user_id x) = Some [] \<Longrightarrow> afk_notify env s (x # xs) = afk_notify env s xs"
  by simp

lemma afk_notify_send:
  "map_of (afk_cache s) (user_id x) = Some r \<Longrightarrow> r \<noteq> [] \<Longrightarrow>
   afk_notify env s (x # xs) =
     (case outcome env (calls s) (ChannelSend (display_name x @ '' is AFK: '' @ r)) of
        Some e \<Rightarrow> (Some e, s\<lparr>calls := calls s @ [ChannelSend (display_name x @ '' is AFK: '' @ r)]\<rparr>)
      | None \<Rightarrow> afk_notify env (s\<lparr>calls := calls s @ [ChannelSend (display_name x @ '' is AFK: '' @ r)]\<rparr>) xs)"
  by (simp add: call_def split: option.split)


declare afk_notify.simps(2) [simp del]

lemma due_notices_Nil: "due_notices cache [] = []"
  by (simp add: due_notices_def)

lemma due_notices_Cons:
  "due_notices cache (x # xs) =
     (case map_of cache (user_id x) of
        Some r \<Rightarrow> if r \<noteq> [] then [display_name x @ '' is AFK: '' @ r] else []
      | None \<Rightarrow> []) @ due_notices cache xs"
  by (simp add: due_notices_def)

lemma afk_notify_calls:
  "\<exists>ps. calls (snd (afk_notify env s ms)) = calls s @ map ChannelSend ps
        \<and> prefix ps (due_notices (afk_cache s) ms)
        \<and> (fst (afk_notify env s ms) = None \<longrightarrow> ps = due_notices (afk_cache s) ms)"
proof (induction ms arbitrary: s)
  case Nil
  have "calls (snd (afk_notify env s [])) = calls s @ map ChannelSend []
        \<and> prefix [] (due_notices (afk_cache s) [])
        \<and> (fst (afk_notify env s []) = None \<longrightarrow> [] = due_notices (afk_cache s) [])"
    by (simp add: due_notices_Nil)
  then show ?case by (rule exI)
next
  case (Cons x xs)
  show ?case
  proof (cases "map_of (afk_cache s) (user_id x)")
    case None
    have "afk_notify env s (x # xs) = afk_notify env s xs"
      using None by (rule afk_notify_absent)
    moreover have "due_notices (afk_cache s) (x # xs) = due_notices (afk_cache s) xs"
      using None by (simp add: due_notices_Cons)
    ultimately show ?thesis using Cons.IH [of s] by simp
  next
    case (Some r)
    show ?thesis
    proof (cases "r = []")
      case True
      have "afk_notify env s (x # xs) = afk_notify env s xs"
        using Some True by (simp add: afk_notify_empty_reason)
      moreover have "due_notices (afk_cache s) (x # xs) = due_notices (afk_cache s) xs"
        using Some True by (simp add: due_notices_Cons)
      ultimately show ?thesis using Cons.IH [of s] by simp
    next
      case False
      define t where "t = display_name x @ '' is AFK: '' @ r"
      define s1 where "s1 = s\<lparr>calls := calls s @ [ChannelSend t]\<rparr>"
      have step: "afk_notify env s (x # xs) =
                    (case outcome env (calls s) (ChannelSend t) of
                       Some e \<Rightarrow> (Some e, s1) | None \<Rightarrow> afk_notify env s1 xs)"
        unfolding t_def s1_def using Some False by (rule afk_notify_send)
      have due: "due_notices (afk_cache s) (x # xs) = t # due_notices (afk_cache s) xs"
        using Some False by (simp add: due_notices_Cons t_def)
      have s1: "calls s1 = calls s @ [ChannelSend t]" "afk_cache s1 = afk_cache s"
        by (simp_all add: s1_def)
      show ?thesis
      proof (cases "outcome env (calls s) (ChannelSend t)")
        case None
        from Cons.IH [of s1] obtain ps where
          ps: "calls (snd (afk_notify env s1 xs)) = calls s1 @ map ChannelSend ps
                \<and> prefix ps (due_notices (afk_cache s1) xs)
                \<and> (fst (afk_notify env s1 xs) = None \<longrightarrow> ps = due_notices (afk_cache s1) xs)" ..
        have "calls (snd (afk_notify env s (x # xs))) = calls s @ map ChannelSend (t # ps)
              \<and> prefix (t # ps) (due_notices (afk_cache s) (x # xs))
              \<and> (fst (afk_notify env s (x # xs)) = None \<longrightarrow>
                   t # ps = due_notices (afk_cache s) (x # xs))"
          using ps by (simp add: step None due s1)
        then show ?thesis by (rule exI)
      next
        case (Some e)
        have "calls (snd (afk_notify env s (x # xs))) = calls s @ map ChannelSend [t]
              \<and> prefix [t] (due_notices (afk_cache s) (x # xs))
              \<and> (fst (afk_notify env s (x # xs)) = None \<longrightarrow>
                   [t] = due_notices (afk_cache s) (x # xs))"
          by (simp add: step Some due s1)
        then show ?thesis by (rule exI)
      qed
    qed
  qed
qed

lemma absent_delete: "map_of cache k = None \<Longrightarrow> AList.delete k cache = cache"
  by (simp add: map_of_eq_None_iff)

lemma afk_clear_cache:
  "afk_cache (snd (afk_clear env s m)) = AList.delete (user_id (author m)) (afk_cache s)"
  by (auto simp: afk_clear_def call_def absent_delete split: option.splits prod.splits)

lemma afk_clear_calls:
  "\<exists>xs. calls (snd (afk_clear env s m)) = calls s @ xs \<and> channel_sends xs = [] \<and> replies xs = []
      \<and> reactions xs = (if map_of (afk_cache s) (user_id (author m)) \<noteq> None then [wave] else [])"
  by (auto simp: afk_clear_def call_def split: option.splits prod.splits)

lemma afk_notify_cache: "afk_cache (snd (afk_notify env s ms)) = afk_cache s"
proof (induction ms arbitrary: s)
  case Nil
  show ?case by simp
next
  case (Cons x xs)
  show ?case
    by (simp add: afk_notify.simps(2) call_def Cons.IH split: option.split)
qed

lemma expand_links_cache: "afk_cache (snd (expand_links env s m)) = afk_cache s"
  by (simp add: expand_links_def call_def Let_def)

lemma expand_links_calls:
  "calls (snd (expand_links env s m)) =
     calls s @ (if reply_links env (content m) \<noteq> []
                then [Reply (join newline (reply_links env (content m)))] else [])"
  by (simp add: expand_links_def call_def Let_def)

lemma channel_sends_append: "channel_sends (xs @ ys) = channel_sends xs @ channel_sends ys"
  by (induction xs rule: channel_sends.induct) auto

lemma reactions_append: "reactions (xs @ ys) = reactions xs @ reactions ys"
  by (induction xs rule: reactions.induct) auto

lemma channel_sends_map: "channel_sends (map ChannelSend ps) = ps"
  by (induction ps) auto

lemma reactions_map: "reactions (map ChannelSend ps) = []"
  by (induction ps) auto

lemma on_message_cases [consumes 1, case_names clear_raised notify_raised completed]:
  assumes "\<not> bot_flag (author m)"
  obtains e s1 where "afk_clear env s m = (Some e, s1)" "on_message env s m = (Some e, s1)"
  | s1 e s2 where "afk_clear env s m = (None, s1)" "afk_notify env s1 (mentions m) = (Some e, s2)"
      "on_message env s m = (Some e, s2)"
  | s1 s2 where "afk_clear env s m = (None, s1)" "afk_notify env s1 (mentions m) = (None, s2)"
      "on_message env s m = expand_links env s2 m"
proof -
  obtain r1 s1 where c: "afk_clear env s m = (r1, s1)"
    by (cases "afk_clear env s m")
  obtain r2 s2 where n: "afk_notify env s1 (mentions m) = (r2, s2)"
    by (cases "afk_notify env s1 (mentions m)")
  show thesis
  proof (cases r1)
    case (Some e)
    with c assms have "on_message env s m = (Some e, s1)"
      by (simp add: on_message_def)
    with c Some show thesis by (simp add: that(1))
  next
    case None
    note r1 = None
    show thesis
    proof (cases r2)
      case (Some e)
      with c n r1 assms have "on_message env s m = (Some e, s2)"
        by (simp add: on_message_def)
      with c n r1 Some show thesis by (simp add: that(2))
    next
      case None
      with c n r1 assms have "on_message env s m = expand_links env s2 m"
        by (simp add: on_message_def)
      with c n r1 None show thesis by (simp add: that(3))
    qed
  qed
qed

lemma on_message_cache:
  assumes "\<not> bot_flag (author m)"
  shows "afk_cache (snd (on_message env s m)) = AList.delete (user_id (author m)) (afk_cache s)"
  using assms
proof (cases rule: on_message_cases [where env = env and s = s])
  case (clear_raised e s1)
  then show ?thesis using afk_clear_cache [of env s m] by simp
next
  case (notify_raised s1 e s2)
  then show ?thesis
    using afk_clear_cache [of env s m] afk_notify_cache [of env s1 "mentions m"] by simp
next
  case (completed s1 s2)
  then show ?thesis
    using afk_clear_cache [of env s m] afk_notify_cache [of env s1 "mentions m"]
    by (simp add: expand_links_cache)
qed

lemma on_message_calls:
  assumes "\<not> bot_flag (author m)"
  shows "\<exists>xs ps zs.
           calls (snd (on_message env s m)) = calls s @ xs @ map ChannelSend ps @ zs
         \<and> channel_sends xs = [] \<and> channel_sends zs = [] \<and> reactions zs = []
         \<and> reactions xs = (if map_of (afk_cache s) (user_id (author m)) \<noteq> None then [wave] else [])
         \<and> prefix ps (due_notices (AList.delete (user_id (author m)) (afk_cache s)) (mentions m))
         \<and> (fst (on_message env s m) = None \<longrightarrow>
              ps = due_notices (AList.delete (user_id (author m)) (afk_cache s)) (mentions m))"
proof -
  let ?present = "map_of (afk_cache s) (user_id (author m)) \<noteq> None"
  let ?due = "due_notices (AList.delete (user_id (author m)) (afk_cache s)) (mentions m)"
  obtain xs where xs: "calls (snd (afk_clear env s m)) = calls s @ xs" "channel_sends xs = []"
      "reactions xs = (if ?present then [wave] else [])"
    using afk_clear_calls [of env s m] by (elim exE conjE)
  from assms show ?thesis
  proof (cases rule: on_message_cases [where env = env and s = s])
    case (clear_raised e s1)
    have "calls (snd (on_message env s m)) = calls s @ xs @ map ChannelSend [] @ []
          \<and> channel_sends xs = [] \<and> channel_sends [] = [] \<and> reactions [] = []
          \<and> reactions xs = (if ?present then [wave] else [])
          \<and> prefix [] ?due \<and> (fst (on_message env s m) = None \<longrightarrow> [] = ?due)"
      using clear_raised xs by simp
    then show ?thesis by (intro exI)
  next
    case (notify_raised s1 e s2)
    have c1: "afk_cache s1 = AList.delete (user_id (author m)) (afk_cache s)"
      using afk_clear_cache [of env s m] notify_raised(1) by simp
    obtain ps where ps: "calls (snd (afk_notify env s1 (mentions m))) = calls s1 @ map ChannelSend ps"
        "prefix ps (due_notices (afk_cache s1) (mentions m))"
      using afk_notify_calls [of env s1 "mentions m"] by (elim exE conjE)
    have "calls (snd (on_message env s m)) = calls s @ xs @ map ChannelSend ps @ []
          \<and> channel_sends xs = [] \<and> channel_sends [] = [] \<and> reactions [] = []
          \<and> reactions xs = (if ?present then [wave] else [])
          \<and> prefix ps ?due \<and> (fst (on_message env s m) = None \<longrightarrow> ps = ?due)"
      using notify_raised xs ps c1 by simp
    then show ?thesis by (intro exI)
  next
    case (completed s1 s2)
    have c1: "afk_cache s1 = AList.delete (user_id (author m)) (afk_cache s)"
      using afk_clear_cache [of env s m] completed(1) by simp
    obtain ps where ps: "calls (snd (afk_notify env s1 (mentions m))) = calls s1 @ map ChannelSend ps"
        "prefix ps (due_notices (afk_cache s1) (mentions m))"
        "fst (afk_notify env s1 (mentions m)) = None \<longrightarrow> ps = due_notices (afk_cache s1) (mentions m)"
      using afk_notify_calls [of env s1 "mentions m"] by (elim exE conjE)
    define zs where "zs = (if reply_links env (content m) \<noteq> []
                then [Reply (join newline (reply_links env (content m)))] else [])"
    have z: "channel_sends zs = []" "reactions zs = []"
      by (simp_all add: zs_def)
    have "calls (snd (on_message env s m)) = calls s @ xs @ map ChannelSend ps @ zs
          \<and> channel_sends xs = [] \<and> channel_sends zs = [] \<and> reactions zs = []
          \<and> reactions xs = (if ?present then [wave] else [])
          \<and> prefix ps ?due \<and> (fst (on_message env s m) = None \<longrightarrow> ps = ?due)"
      using completed xs ps c1 z by (simp add: expand_links_calls zs_def [symmetric])
    then show ?thesis by (intro exI)
  qed
qed

lemma new_calls_append: "calls s' = calls s @ xs \<Longrightarrow> new_calls s s' = xs"
  by (simp add: new_calls_def)

lemma on_message_new_calls:
  assumes "\<not> bot_flag (author m)"
  shows "reactions (new_calls s (snd (on_message env s m))) =
           (if map_of (afk_cache s) (user_id (author m)) \<noteq> None then [wave] else [])"
    and "prefix (channel_sends (new_calls s (snd (on_message env s m))))
           (due_notices (AList.delete (user_id (author m)) (afk_cache s)) (mentions m))"
    and "fst (on_message env s m) = None \<Longrightarrow>
         channel_sends (new_calls s (snd (on_message env s m))) =
           due_notices (AList.delete (user_id (author m)) (afk_cache s)) (mentions m)"
proof -
  let ?due = "due_notices (AList.delete (user_id (author m)) (afk_cache s)) (mentions m)"
  obtain xs ps zs where
    c: "calls (snd (on_message env s m)) = calls s @ xs @ map ChannelSend ps @ zs"
    and p: "channel_sends xs = []" "channel_sends zs = []" "reactions zs = []"
      "reactions xs = (if map_of (afk_cache s) (user_id (author m)) \<noteq> None then [wave] else [])"
      "prefix ps ?due" "fst (on_message env s m) = None \<longrightarrow> ps = ?due"
    using on_message_calls [OF assms, of env s] by (elim exE conjE)
  have n: "new_calls s (snd (on_message env s m)) = xs @ map ChannelSend ps @ zs"
    using c by (rule new_calls_append)
  show "reactions (new_calls s (snd (on_message env s m))) =
           (if map_of (afk_cache s) (user_id (author m)) \<noteq> None then [wave] else [])"
    by (simp add: n reactions_append reactions_map p)
  have cs: "channel_sends (new_calls s (snd (on_message env s m))) = ps"
    by (simp add: n channel_sends_append channel_sends_map p)
  show "prefix (channel_sends (new_calls s (snd (on_message env s m)))) ?due"
    using p(5) by (simp add: cs)
  show "channel_sends (new_calls s (snd (on_message env s m))) = ?due"
    if "fst (on_message env s m) = None"
    using that p(6) by (simp add: cs)
qed

lemma due_notices_delete:
  "due_notices (AList.delete a cache) ms = due_notices cache (filter (\<lambda>x. user_id x \<noteq> a) ms)"
proof (induction ms)
  case Nil
  show ?case by (simp add: due_notices_Nil)
next
  case (Cons x xs)
  show ?case
  proof (cases "user_id x = a")
    case True
    then show ?thesis
      using Cons.IH by (simp add: due_notices_Cons AList.delete_conv)
  next
    case False
    then show ?thesis
      using Cons.IH by (simp add: due_notices_Cons AList.delete_conv)
  qed
qed

lemma afk_clear_absent:
  "map_of (afk_cache s) (user_id (author m)) = None \<Longrightarrow> afk_clear env s m = (None, s)"
  by (simp add: afk_clear_def)

lemma afk_cache_after:
  "afk_cache (snd (afk env s a reason change_nick)) =
     (if outcome env (calls s) (Respond (''Set your AFK: '' @ reason)) = None
      then AList.update (user_id a) reason (afk_cache s) else afk_cache s)"
  by (auto simp: afk_def call_def Let_def split: option.splits prod.splits)

lemma afk_invariant_count:
  "afk_invariant cache \<Longrightarrow> length (filter (\<lambda>e. fst e = u) cache) \<le> 1"
proof (induction cache)
  case Nil
  show ?case by simp
next
  case (Cons p ps)
  then have d: "fst p \<notin> set (map fst ps)" and i: "afk_invariant ps"
    by (simp_all add: afk_invariant_def)
  show ?case
  proof (cases "fst p = u")
    case True
    have "filter (\<lambda>e. fst e = u) ps = []"
    proof (rule ccontr)
      assume "filter (\<lambda>e. fst e = u) ps \<noteq> []"
      then obtain q where q: "q \<in> set ps" "fst q = u"
        by (auto simp: filter_empty_conv)
      then have "fst p \<in> set (map fst ps)"
        using True by (simp add: image_iff) (rule bexI [of _ q], simp_all)
      with d show False by simp
    qed
    with True show ?thesis by simp
  next
    case False
    with Cons.IH [OF i] show ?thesis by simp
  qed
qed



lemma links_of_distinct: "python_set env \<Longrightarrow> distinct (links_of env c)"
  by (simp add: links_of_def python_set_def)


lemma links_of_length: "length (links_of env c) \<le> 15"
  by (simp add: links_of_def)

lemma inj_bracket: "inj bracket"
  by (simp add: inj_def bracket_def)

lemma reply_links_length: "length (reply_links env c) = length (links_of env c)"
  by (simp add: reply_links_def Let_def)




lemma links_of_few:
  assumes "python_set env" and "card (set (generated_links c)) \<le> 15"
  shows "links_of env c = set_order env (generated_links c)"
proof -
  let ?xs = "set_order env (generated_links c)"
  from assms(1) have "distinct ?xs" and "set ?xs = set (generated_links c)"
    by (simp_all add: python_set_def)
  then have "length ?xs = card (set (generated_links c))"
    by (metis distinct_card)
  with assms(2) show ?thesis
    by (simp add: links_of_def)
qed












subsection \<open>Messages of automated authors\<close>

text \<open>
  Claim C7. When the author of the message is a bot, \<open>on_message\<close> returns at once
  without an exception: it issues no call on the messaging client (no reaction, no
  reply, no nickname edit) and leaves the AFK dictionary as it was.
\<close>

theorem on_message_ignores_bots:
  assumes "bot_flag (author m)"
  shows "on_message env s m = (None, s)
       \<and> new_calls s (snd (on_message env s m)) = []
       \<and> afk_cache (snd (on_message env s m)) = afk_cache s"
  using assms by (simp add: on_message_def new_calls_def)

theorem on_message_ignores_bots_witness:
  "bot_flag (author from_robot)
   \<and> on_message no_reactions both_away from_robot = (None, both_away)
   \<and> new_calls both_away (snd (on_message no_reactions both_away from_robot)) = []
   \<and> afk_cache (snd (on_message no_reactions both_away from_robot)) = afk_cache both_away"
proof -
  have b: "bot_flag (author from_robot)"
    by (simp add: from_robot_def robot_def)
  from b on_message_ignores_bots [OF b, of no_reactions both_away] show ?thesis
    by (simp add: new_calls_def)
qed

subsection \<open>Failures of the cosmetic calls\<close>

text \<open>
  Claim C1, as the code has it. The nickname edit stands under
  \<open>suppress(discord.HTTPException)\<close>; the reaction does not. For a message of an author
  that is not a bot:

  \<^item> when the reaction, where it is added, does not raise, and the nickname edit, where it
    is issued, succeeds or raises \<open>HTTPException\<close>, the first step of \<open>on_message\<close> ends
    without an exception and \<open>on_message\<close> goes on with the loop over the mentions and
    then with the links: a failure of the edit neither leaves the handler nor stops the
    later steps. Only the edit that is issued is constrained, the one of the author's
    nickname after the reaction;

  \<^item> when the author has an entry and adding the reaction raises, whatever the exception,
    \<open>on_message\<close> ends with that exception right after the reaction, with the entry
    deleted: no nickname edit, no notice and no reply follows;

  \<^item> when the nickname edit raises an exception that is not an \<open>HTTPException\<close>,
    \<open>on_message\<close> ends with that exception right after the edit.
\<close>

theorem nick_edit_failure_discarded:
  assumes "\<not> bot_flag (author m)"
  shows "((map_of (afk_cache s) (user_id (author m)) \<noteq> None \<longrightarrow>
             outcome env (calls s) (AddReaction wave) = None)
          \<and> (\<forall>n. nick (author m) = Some n \<and> n \<noteq> [] \<and> startswith n ''[AFK] '' \<longrightarrow>
                 outcome env (calls s @ [AddReaction wave])
                   (EditNick (user_id (author m)) (drop 6 n)) \<noteq> Some OtherError)
          \<longrightarrow> fst (afk_clear env s m) = None
              \<and> on_message env s m =
                  (case afk_notify env (snd (afk_clear env s m)) (mentions m) of
                     (Some x, s2) \<Rightarrow> (Some x, s2)
                   | (None, s2) \<Rightarrow> expand_links env s2 m))
       \<and> (map_of (afk_cache s) (user_id (author m)) \<noteq> None
          \<and> outcome env (calls s) (AddReaction wave) = Some e
          \<longrightarrow> on_message env s m =
                (Some e, s\<lparr>afk_cache := AList.delete (user_id (author m)) (afk_cache s),
                           calls := calls s @ [AddReaction wave]\<rparr>))
       \<and> (map_of (afk_cache s) (user_id (author m)) \<noteq> None
          \<and> outcome env (calls s) (AddReaction wave) = None
          \<and> nick (author m) = Some n \<and> n \<noteq> [] \<and> startswith n ''[AFK] ''
          \<and> outcome env (calls s @ [AddReaction wave])
               (EditNick (user_id (author m)) (drop 6 n)) = Some OtherError
          \<longrightarrow> on_message env s m =
                (Some OtherError,
                 s\<lparr>afk_cache := AList.delete (user_id (author m)) (afk_cache s),
                   calls := calls s @ [AddReaction wave,
                                       EditNick (user_id (author m)) (drop 6 n)]\<rparr>))"
proof -
  let ?present = "map_of (afk_cache s) (user_id (author m)) \<noteq> None"
  let ?u = "user_id (author m)"
  have swallowed:
    "(?present \<longrightarrow> outcome env (calls s) (AddReaction wave) = None)
     \<and> (\<forall>n. nick (author m) = Some n \<and> n \<noteq> [] \<and> startswith n ''[AFK] '' \<longrightarrow>
            outcome env (calls s @ [AddReaction wave]) (EditNick ?u (drop 6 n)) \<noteq> Some OtherError)
     \<longrightarrow> fst (afk_clear env s m) = None
         \<and> on_message env s m =
             (case afk_notify env (snd (afk_clear env s m)) (mentions m) of
                (Some x, s2) \<Rightarrow> (Some x, s2)
              | (None, s2) \<Rightarrow> expand_links env s2 m)"
  proof
    assume h: "(?present \<longrightarrow> outcome env (calls s) (AddReaction wave) = None)
     \<and> (\<forall>n. nick (author m) = Some n \<and> n \<noteq> [] \<and> startswith n ''[AFK] '' \<longrightarrow>
            outcome env (calls s @ [AddReaction wave]) (EditNick ?u (drop 6 n)) \<noteq> Some OtherError)"
    have f: "fst (afk_clear env s m) = None"
    proof (cases ?present)
      case False
      then show ?thesis by (simp add: afk_clear_def)
    next
      case True
      with h have r: "outcome env (calls s) (AddReaction wave) = None" by simp
      show ?thesis
      proof (cases "nick (author m)")
        case None
        with True r show ?thesis by (simp add: afk_clear_def call_def)
      next
        case (Some n)
        show ?thesis
        proof (cases "n \<noteq> [] \<and> startswith n ''[AFK] ''")
          case False
          with True r Some show ?thesis by (auto simp: afk_clear_def call_def)
        next
          case issued: True
          with h Some have
            "outcome env (calls s @ [AddReaction wave]) (EditNick ?u (drop 6 n)) \<noteq> Some OtherError"
            by simp
          then have "suppress (outcome env (calls s @ [AddReaction wave])
                       (EditNick ?u (drop 6 n))) = None"
            by (cases "outcome env (calls s @ [AddReaction wave]) (EditNick ?u (drop 6 n))")
               (auto simp: suppress_def split: exn.split)
          with True r Some issued show ?thesis
            by (simp add: afk_clear_def call_def)
        qed
      qed
    qed
    obtain r1 s1 where c: "afk_clear env s m = (r1, s1)"
      by (cases "afk_clear env s m")
    with f have "r1 = None" by simp
    with c assms f show "fst (afk_clear env s m) = None
         \<and> on_message env s m =
             (case afk_notify env (snd (afk_clear env s m)) (mentions m) of
                (Some x, s2) \<Rightarrow> (Some x, s2)
              | (None, s2) \<Rightarrow> expand_links env s2 m)"
      by (simp add: on_message_def)
  qed
  have reaction:
    "?present \<and> outcome env (calls s) (AddReaction wave) = Some e
     \<longrightarrow> on_message env s m =
           (Some e, s\<lparr>afk_cache := AList.delete ?u (afk_cache s),
                      calls := calls s @ [AddReaction wave]\<rparr>)"
    using assms by (simp add: on_message_def afk_clear_def call_def)
  have edit:
    "?present \<and> outcome env (calls s) (AddReaction wave) = None
     \<and> nick (author m) = Some n \<and> n \<noteq> [] \<and> startswith n ''[AFK] ''
     \<and> outcome env (calls s @ [AddReaction wave]) (EditNick ?u (drop 6 n)) = Some OtherError
     \<longrightarrow> on_message env s m =
           (Some OtherError,
            s\<lparr>afk_cache := AList.delete ?u (afk_cache s),
              calls := calls s @ [AddReaction wave, EditNick ?u (drop 6 n)]\<rparr>)"
    using assms by (simp add: on_message_def afk_clear_def call_def suppress_def)
  from swallowed reaction edit show ?thesis
    by (intro conjI)
qed

theorem nick_edit_failure_discarded_witness:
  "\<not> bot_flag (author greeting)
   \<and> outcome own_edit_refused (calls both_away @ [AddReaction wave])
       (EditNick (user_id (author greeting)) ''Alice'') = Some HTTPException
   \<and> outcome own_edit_refused [] (EditNick 2 ''Bob'') = None
   \<and> on_message own_edit_refused both_away greeting =
       (None, \<lparr>afk_cache = [(2, ''lunch'')],
               calls = [AddReaction wave, EditNick 1 ''Alice'', ChannelSend ''Bob is AFK: lunch'',
                        Reply ''https://github.com/Pycord-Development/pycord/pull/1'']\<rparr>)
   \<and> on_message no_reactions both_away greeting =
       (Some HTTPException, \<lparr>afk_cache = [(2, ''lunch'')], calls = [AddReaction wave]\<rparr>)
   \<and> on_message edit_crashes both_away greeting =
       (Some OtherError,
        \<lparr>afk_cache = [(2, ''lunch'')], calls = [AddReaction wave, EditNick 1 ''Alice'']\<rparr>)"
proof -
  have b: "\<not> bot_flag (author greeting)"
    by (simp add: greeting_def alice_def)
  have pres: "map_of (afk_cache both_away) (user_id (author greeting)) \<noteq> None"
    by (simp add: greeting_def alice_def both_away_def)
  have nk: "nick (author greeting) = Some ''[AFK] Alice''"
      "''[AFK] Alice'' \<noteq> []" "startswith ''[AFK] Alice'' ''[AFK] ''"
      "drop 6 ''[AFK] Alice'' = ''Alice''"
    by (simp_all add: greeting_def alice_def startswith_def)
  have del: "AList.delete (user_id (author greeting)) (afk_cache both_away) = [(2, ''lunch'')]"
    by (simp add: greeting_def alice_def both_away_def)
  have cs: "calls both_away = []"
    by (simp add: both_away_def)
  have uid: "user_id (author greeting) = 1"
    by (simp add: greeting_def alice_def)

  have o1: "outcome own_edit_refused (calls both_away) (AddReaction wave) = None"
    by (simp add: own_edit_refused_def)
  have o2: "\<forall>n. nick (author greeting) = Some n \<and> n \<noteq> [] \<and> startswith n ''[AFK] '' \<longrightarrow>
              outcome own_edit_refused (calls both_away @ [AddReaction wave])
                (EditNick (user_id (author greeting)) (drop 6 n)) \<noteq> Some OtherError"
    by (simp add: own_edit_refused_def)
  have o3: "outcome own_edit_refused (calls both_away @ [AddReaction wave])
       (EditNick (user_id (author greeting)) ''Alice'') = Some HTTPException"
    by (simp add: own_edit_refused_def uid)
  have o4: "outcome own_edit_refused [] (EditNick 2 ''Bob'') = None"
    by (simp add: own_edit_refused_def)
  have run: "(case afk_notify own_edit_refused (snd (afk_clear own_edit_refused both_away greeting))
                    (mentions greeting) of
                (Some x, s2) \<Rightarrow> (Some x, s2)
              | (None, s2) \<Rightarrow> expand_links own_edit_refused s2 greeting) =
       (None, \<lparr>afk_cache = [(2, ''lunch'')],
               calls = [AddReaction wave, EditNick 1 ''Alice'', ChannelSend ''Bob is AFK: lunch'',
                        Reply ''https://github.com/Pycord-Development/pycord/pull/1'']\<rparr>)"
    by code_simp
  from nick_edit_failure_discarded [OF b, where s = both_away and env = own_edit_refused] o1 o2 run
  have w1: "on_message own_edit_refused both_away greeting =
       (None, \<lparr>afk_cache = [(2, ''lunch'')],
               calls = [AddReaction wave, EditNick 1 ''Alice'', ChannelSend ''Bob is AFK: lunch'',
                        Reply ''https://github.com/Pycord-Development/pycord/pull/1'']\<rparr>)"
    by simp

  have r2: "outcome no_reactions (calls both_away) (AddReaction wave) = Some HTTPException"
    by (simp add: no_reactions_def wave_def)
  from nick_edit_failure_discarded [OF b, where s = both_away and env = no_reactions
      and e = HTTPException] pres r2
  have w2: "on_message no_reactions both_away greeting =
       (Some HTTPException, \<lparr>afk_cache = [(2, ''lunch'')], calls = [AddReaction wave]\<rparr>)"
    by (simp add: del cs)

  have r3: "outcome edit_crashes (calls both_away) (AddReaction wave) = None"
      "outcome edit_crashes (calls both_away @ [AddReaction wave])
         (EditNick (user_id (author greeting)) (drop 6 ''[AFK] Alice'')) = Some OtherError"
    by (simp_all add: edit_crashes_def wave_def)
  from nick_edit_failure_discarded [OF b, where s = both_away and env = edit_crashes
      and n = "''[AFK] Alice''"] pres r3 nk
  have w3: "on_message edit_crashes both_away greeting =
       (Some OtherError,
        \<lparr>afk_cache = [(2, ''lunch'')], calls = [AddReaction wave, EditNick 1 ''Alice'']\<rparr>)"
    by (simp add: uid both_away_def)
  from b o3 o4 w1 w2 w3 show ?thesis
    by (intro conjI)
qed

text \<open>
  Claim C1 as stated fails for the reaction, and for an edit that raises another
  exception than \<open>HTTPException\<close>. Alice is away and mentions Bob, who is away too, in a
  text with one reference. When adding the reaction raises \<open>HTTPException\<close>, the exception
  leaves \<open>on_message\<close> and neither the notice about Bob nor the link is sent. When the
  edit of the nickname raises another exception, it leaves \<open>on_message\<close> as well, after
  the reaction and the edit. Both the notice and the link are sent when the two calls go
  through.
\<close>

theorem reaction_failure_counterexample:
  "\<not> bot_flag (author greeting)
   \<and> outcome no_reactions (calls both_away) (AddReaction wave) = Some HTTPException
   \<and> on_message no_reactions both_away greeting =
       (Some HTTPException, \<lparr>afk_cache = [(2, ''lunch'')], calls = [AddReaction wave]\<rparr>)
   \<and> outcome edit_crashes [AddReaction wave] (EditNick 1 ''Alice'') = Some OtherError
   \<and> on_message edit_crashes both_away greeting =
       (Some OtherError,
        \<lparr>afk_cache = [(2, ''lunch'')], calls = [AddReaction wave, EditNick 1 ''Alice'']\<rparr>)
   \<and> on_message calm both_away greeting =
       (None, \<lparr>afk_cache = [(2, ''lunch'')],
               calls = [AddReaction wave, EditNick 1 ''Alice'', ChannelSend ''Bob is AFK: lunch'',
                        Reply ''https://github.com/Pycord-Development/pycord/pull/1'']\<rparr>)"
  by code_simp

subsection \<open>Notices for mentioned users\<close>

text \<open>
  Claim C2, as the code has it. For a message of an author that is not a bot, the texts
  sent to the channel are, in the order of the mentions and once for each occurrence, the
  lines \<open>"{display_name} is AFK: {reason}"\<close> of the mentions whose user has an entry with
  a reason that is not empty in the dictionary without the entry of the author (the entry
  of the author is deleted before the loop runs). When a call raises, the texts sent are
  a prefix of these lines; when \<open>on_message\<close> ends without an exception, they are all
  of them.
\<close>

theorem afk_mentions_notified:
  assumes "\<not> bot_flag (author m)"
  shows "prefix (channel_sends (new_calls s (snd (on_message env s m))))
           (due_notices (AList.delete (user_id (author m)) (afk_cache s)) (mentions m))
       \<and> (fst (on_message env s m) = None \<longrightarrow>
            channel_sends (new_calls s (snd (on_message env s m))) =
              due_notices (AList.delete (user_id (author m)) (afk_cache s)) (mentions m))"
  using on_message_new_calls(2,3) [OF assms, where s = s and env = env] by simp

theorem afk_mentions_notified_witness:
  "\<not> bot_flag (author roll_call)
   \<and> fst (on_message calm both_away roll_call) = None
   \<and> channel_sends (new_calls both_away (snd (on_message calm both_away roll_call))) =
       due_notices (AList.delete (user_id (author roll_call)) (afk_cache both_away))
         (mentions roll_call)
   \<and> due_notices (AList.delete (user_id (author roll_call)) (afk_cache both_away))
         (mentions roll_call) = [''[AFK] Alice is AFK: brb'', ''[AFK] Alice is AFK: brb'']"
proof -
  have b: "\<not> bot_flag (author roll_call)"
    by (simp add: roll_call_def bob_def)
  have r: "fst (on_message calm both_away roll_call) = None"
    by code_simp
  have d: "due_notices (AList.delete (user_id (author roll_call)) (afk_cache both_away))
         (mentions roll_call) = [''[AFK] Alice is AFK: brb'', ''[AFK] Alice is AFK: brb'']"
    by code_simp
  from afk_mentions_notified [OF b, where s = both_away and env = calm] r b d show ?thesis
    by simp
qed

text \<open>
  Claim C2 as stated fails when the author is away and is mentioned: Alice has an entry
  when \<open>on_message\<close> is called and is mentioned twice, yet the only notice sent is the
  one about Bob, where the claim asks for three.
\<close>

theorem afk_mentions_counterexample:
  "\<not> bot_flag (author self_mention)
   \<and> alice \<in> set (mentions self_mention)
   \<and> map_of (afk_cache both_away) (user_id alice) = Some ''brb''
   \<and> fst (on_message calm both_away self_mention) = None
   \<and> channel_sends (new_calls both_away (snd (on_message calm both_away self_mention))) =
       [''Bob is AFK: lunch'']
   \<and> due_notices (afk_cache both_away) (mentions self_mention) =
       [''[AFK] Alice is AFK: brb'', ''Bob is AFK: lunch'', ''[AFK] Alice is AFK: brb'']"
  by code_simp

text \<open>
  The loop tests the reason for truth: Bob is mentioned and has an entry, but with the
  empty reason, and nothing is sent.
\<close>

lemma empty_reason_sends_nothing:
  "afk_notify calm \<lparr>afk_cache = [(2, [])], calls = []\<rparr> [bob] =
     (None, \<lparr>afk_cache = [(2, [])], calls = []\<rparr>)"
  by code_simp

subsection \<open>Clearing the entry of the author\<close>

text \<open>
  Claim C3. When a user with an entry in the dictionary posts a message (and is not a
  bot), the entry is removed, the other entries stay, and exactly one reaction, the wave,
  is added. A second message of the same user, handled in the state the first one left,
  adds no reaction and leaves the dictionary as it is. This holds whatever the calls on
  the messaging client answer.
\<close>

theorem afk_entry_cleared_once:
  assumes "\<not> bot_flag (author m)"
    and "map_of (afk_cache s) (user_id (author m)) \<noteq> None"
    and "\<not> bot_flag (author m')"
    and "user_id (author m') = user_id (author m)"
  shows "afk_cache (snd (on_message env s m)) = AList.delete (user_id (author m)) (afk_cache s)
       \<and> map_of (afk_cache (snd (on_message env s m))) (user_id (author m)) = None
       \<and> reactions (new_calls s (snd (on_message env s m))) = [wave]
       \<and> reactions (new_calls (snd (on_message env s m))
                     (snd (on_message env' (snd (on_message env s m)) m'))) = []
       \<and> afk_cache (snd (on_message env' (snd (on_message env s m)) m')) =
           afk_cache (snd (on_message env s m))"
proof -
  let ?s1 = "snd (on_message env s m)"
  have c: "afk_cache ?s1 = AList.delete (user_id (author m)) (afk_cache s)"
    using assms(1) by (rule on_message_cache)
  have gone: "map_of (afk_cache ?s1) (user_id (author m')) = None"
    by (simp add: c assms(4) AList.delete_conv)
  have r1: "reactions (new_calls s ?s1) = [wave]"
    using on_message_new_calls(1) [OF assms(1), where s = s and env = env] assms(2) by simp
  have r2: "reactions (new_calls ?s1 (snd (on_message env' ?s1 m'))) = []"
    using on_message_new_calls(1) [OF assms(3), where s = ?s1 and env = env'] gone by simp
  have c2: "afk_cache (snd (on_message env' ?s1 m')) = afk_cache ?s1"
    using on_message_cache [OF assms(3), where s = ?s1 and env = env'] gone
    by (simp add: absent_delete)
  from c gone r1 r2 c2 show ?thesis
    by (simp add: assms(4))
qed

theorem afk_entry_cleared_once_witness:
  "\<not> bot_flag (author greeting)
   \<and> map_of (afk_cache both_away) (user_id (author greeting)) \<noteq> None
   \<and> \<not> bot_flag (author self_mention)
   \<and> user_id (author self_mention) = user_id (author greeting)
   \<and> afk_cache (snd (on_message calm both_away greeting)) = [(2, ''lunch'')]
   \<and> reactions (new_calls both_away (snd (on_message calm both_away greeting))) = [wave]
   \<and> reactions (new_calls (snd (on_message calm both_away greeting))
         (snd (on_message no_nick_edits (snd (on_message calm both_away greeting)) self_mention)))
       = []
   \<and> afk_cache (snd (on_message no_nick_edits (snd (on_message calm both_away greeting))
                        self_mention)) = [(2, ''lunch'')]"
proof -
  have h: "\<not> bot_flag (author greeting)"
      "map_of (afk_cache both_away) (user_id (author greeting)) \<noteq> None"
      "\<not> bot_flag (author self_mention)"
      "user_id (author self_mention) = user_id (author greeting)"
    by (simp_all add: greeting_def self_mention_def alice_def both_away_def)
  have d: "AList.delete (user_id (author greeting)) (afk_cache both_away) = [(2, ''lunch'')]"
    by (simp add: greeting_def alice_def both_away_def)
  from afk_entry_cleared_once [OF h, where env = calm and env' = no_nick_edits] h d
  show ?thesis by simp
qed

text \<open>
  Claim C10. The entry of the author is deleted before the loop over the mentions reads
  the dictionary. So an author who is away (and not a bot) gets the wave, and the notices
  sent are those due to the mentions of other users only: a mention of the author
  contributes no line. The texts sent are a prefix of these notices, and all of them when
  \<open>on_message\<close> ends without an exception.
\<close>

theorem self_mention_not_notified:
  assumes "\<not> bot_flag (author m)"
    and "map_of (afk_cache s) (user_id (author m)) \<noteq> None"
  shows "reactions (new_calls s (snd (on_message env s m))) = [wave]
       \<and> prefix (channel_sends (new_calls s (snd (on_message env s m))))
           (due_notices (afk_cache s)
              (filter (\<lambda>x. user_id x \<noteq> user_id (author m)) (mentions m)))
       \<and> (fst (on_message env s m) = None \<longrightarrow>
            channel_sends (new_calls s (snd (on_message env s m))) =
              due_notices (afk_cache s)
                (filter (\<lambda>x. user_id x \<noteq> user_id (author m)) (mentions m)))"
  using on_message_new_calls [OF assms(1), where s = s and env = env] assms(2)
  by (simp add: due_notices_delete)

theorem self_mention_not_notified_witness:
  "\<not> bot_flag (author self_mention)
   \<and> map_of (afk_cache both_away) (user_id (author self_mention)) \<noteq> None
   \<and> fst (on_message calm both_away self_mention) = None
   \<and> reactions (new_calls both_away (snd (on_message calm both_away self_mention))) = [wave]
   \<and> channel_sends (new_calls both_away (snd (on_message calm both_away self_mention))) =
       due_notices (afk_cache both_away)
         (filter (\<lambda>x. user_id x \<noteq> user_id (author self_mention)) (mentions self_mention))
   \<and> due_notices (afk_cache both_away)
         (filter (\<lambda>x. user_id x \<noteq> user_id (author self_mention)) (mentions self_mention)) =
       [''Bob is AFK: lunch'']"
proof -
  have b: "\<not> bot_flag (author self_mention)"
    by (simp add: self_mention_def alice_def)
  have a: "map_of (afk_cache both_away) (user_id (author self_mention)) \<noteq> None"
    by (simp add: self_mention_def alice_def both_away_def)
  have r: "fst (on_message calm both_away self_mention) = None"
    by code_simp
  have d: "due_notices (afk_cache both_away)
         (filter (\<lambda>x. user_id x \<noteq> user_id (author self_mention)) (mentions self_mention)) =
       [''Bob is AFK: lunch'']"
    by code_simp
  from self_mention_not_notified [OF b a, where env = calm] b a r d show ?thesis
    by simp
qed

subsection \<open>The invariant of the dictionary\<close>

text \<open>
  Claim C9. If no user identifier has two entries, then this is so again after the
  \<open>afk\<close> command (which inserts), after \<open>on_message\<close> (which deletes the entry of the
  author) and after the loop over the mentions (which only reads): every user identifier
  has at most one entry. A user without an entry is not treated as away: a message of
  that user changes nothing in the first step of \<open>on_message\<close>, and a mention of that
  user sends nothing.
\<close>

theorem afk_registry_invariant:
  assumes "afk_invariant (afk_cache s)"
  shows "afk_invariant (afk_cache (snd (afk env s a reason change_nick)))
       \<and> afk_invariant (afk_cache (snd (on_message env s m)))
       \<and> afk_invariant (afk_cache (snd (afk_notify env s ms)))
       \<and> (\<forall>u. length (filter (\<lambda>e. fst e = u) (afk_cache (snd (afk env s a reason change_nick)))) \<le> 1)
       \<and> (\<forall>u. length (filter (\<lambda>e. fst e = u) (afk_cache (snd (on_message env s m)))) \<le> 1)
       \<and> (map_of (afk_cache s) (user_id (author m)) = None \<longrightarrow> afk_clear env s m = (None, s))
       \<and> (map_of (afk_cache s) (user_id x) = None \<longrightarrow>
            afk_notify env s (x # ms) = afk_notify env s ms)"
proof -
  have a: "afk_invariant (afk_cache (snd (afk env s a reason change_nick)))"
    using assms by (simp add: afk_cache_after afk_invariant_def AList.distinct_update)
  have o: "afk_invariant (afk_cache (snd (on_message env s m)))"
  proof (cases "bot_flag (author m)")
    case True
    with assms show ?thesis by (simp add: on_message_def)
  next
    case False
    with assms show ?thesis
      by (simp add: on_message_cache afk_invariant_def AList.distinct_delete)
  qed
  have n: "afk_invariant (afk_cache (snd (afk_notify env s ms)))"
    using assms by (simp add: afk_notify_cache)
  have ca: "\<forall>u. length (filter (\<lambda>e. fst e = u)
                 (afk_cache (snd (afk env s a reason change_nick)))) \<le> 1"
    using afk_invariant_count [OF a] by (rule allI)
  have co: "\<forall>u. length (filter (\<lambda>e. fst e = u) (afk_cache (snd (on_message env s m)))) \<le> 1"
    using afk_invariant_count [OF o] by (rule allI)
  have ac: "map_of (afk_cache s) (user_id (author m)) = None \<longrightarrow> afk_clear env s m = (None, s)"
    by (simp add: afk_clear_absent)
  have an: "map_of (afk_cache s) (user_id x) = None \<longrightarrow>
            afk_notify env s (x # ms) = afk_notify env s ms"
    by (simp add: afk_notify_absent)
  from a o n ca co ac an show ?thesis
    by (intro conjI)
qed

theorem afk_registry_invariant_witness:
  "afk_invariant (afk_cache both_away)
   \<and> afk_invariant (afk_cache (snd (afk calm both_away bob ''tea'' True)))
   \<and> afk_cache (snd (afk calm both_away bob ''tea'' True)) = [(1, ''brb''), (2, ''tea'')]
   \<and> afk_invariant (afk_cache (snd (on_message calm both_away greeting)))
   \<and> afk_invariant (afk_cache (snd (afk_notify calm both_away [alice, bob])))"
proof -
  have i: "afk_invariant (afk_cache both_away)"
    by (simp add: afk_invariant_def both_away_def)
  have e: "afk_cache (snd (afk calm both_away bob ''tea'' True)) = [(1, ''brb''), (2, ''tea'')]"
    by code_simp
  from afk_registry_invariant [OF i, where env = calm and a = bob and reason = "''tea''"
      and change_nick = True and m = greeting and ms = "[alice, bob]"] i e
  show ?thesis by simp
qed

subsection \<open>Reference links\<close>

text \<open>
  Claim C4. In the content \<open>Fixes foo/bar##42 and ##43\<close> the regular expression finds
  two matches, \<open>foo/bar##42\<close> with both groups and \<open>##43\<close> with none. With the
  default organisation and repository for the second, the links built are
  \<open>https://github.com/foo/bar/pull/42\<close> and
  \<open>https://github.com/Pycord-Development/pycord/pull/43\<close>, and these two are the set of
  links after \<open>list(set(...))[:15]\<close>, whatever the order of the set.
\<close>

theorem pull_hash_example:
  "findall ''Fixes foo/bar##42 and ##43'' = [(''foo'', ''bar'', ''42''), ('''', '''', ''43'')]
   \<and> set (generated_links ''Fixes foo/bar##42 and ##43'') =
       {''https://github.com/foo/bar/pull/42'',
        ''https://github.com/Pycord-Development/pycord/pull/43''}
   \<and> (\<forall>env. python_set env \<longrightarrow>
         set (links_of env ''Fixes foo/bar##42 and ##43'') =
           {''https://github.com/foo/bar/pull/42'',
            ''https://github.com/Pycord-Development/pycord/pull/43''})"
proof -
  let ?c = "''Fixes foo/bar##42 and ##43''"
  have f: "findall ?c = [(''foo'', ''bar'', ''42''), ('''', '''', ''43'')]"
    by code_simp
  have g: "generated_links ?c =
       [''https://github.com/foo/bar/pull/42'',
        ''https://github.com/Pycord-Development/pycord/pull/43'']"
    by code_simp
  have l: "set (links_of env ?c) = set (generated_links ?c)" if "python_set env" for env
  proof -
    have "card (set (generated_links ?c)) \<le> 15"
      by (simp add: g)
    with that have "links_of env ?c = set_order env (generated_links ?c)"
      by (rule links_of_few)
    with that show ?thesis
      by (simp add: python_set_def)
  qed
  from f g l show ?thesis
    by simp
qed

theorem pull_hash_example_witness:
  "python_set calm
   \<and> set (links_of calm ''Fixes foo/bar##42 and ##43'') =
       {''https://github.com/foo/bar/pull/42'',
        ''https://github.com/Pycord-Development/pycord/pull/43''}
   \<and> reply_links calm ''Fixes foo/bar##42 and ##43'' =
       [''https://github.com/foo/bar/pull/42'',
        ''https://github.com/Pycord-Development/pycord/pull/43'']"
proof -
  have p: "python_set calm"
    by (simp add: python_set_def calm_def)
  have r: "reply_links calm ''Fixes foo/bar##42 and ##43'' =
       [''https://github.com/foo/bar/pull/42'',
        ''https://github.com/Pycord-Development/pycord/pull/43'']"
    by code_simp
  from pull_hash_example p r show ?thesis
    by blast
qed

text \<open>
  Claim C5. \<open>reply_links\<close> is the list that \<open>on_message\<close> joins into the reply. For
  every content it has no element twice and at most 15 elements. For a content with 20
  different references \<open>##1\<close> to \<open>##20\<close> it has 15.
\<close>

theorem reply_links_distinct_capped:
  assumes "python_set env"
  shows "distinct (reply_links env c) \<and> length (reply_links env c) \<le> 15"
proof -
  have d: "distinct (links_of env c)"
    using assms by (rule links_of_distinct)
  have "distinct (map bracket (links_of env c))"
    using d inj_bracket by (simp add: distinct_map inj_on_def inj_def)
  with d have "distinct (reply_links env c)"
    by (simp add: reply_links_def Let_def)
  moreover have "length (reply_links env c) \<le> 15"
    by (simp add: reply_links_length links_of_length)
  ultimately show ?thesis by (rule conjI)
qed

theorem reply_links_distinct_capped_witness:
  "python_set calm
   \<and> distinct (generated_links twenty_refs) \<and> length (generated_links twenty_refs) = 20
   \<and> distinct (reply_links calm twenty_refs) \<and> length (reply_links calm twenty_refs) \<le> 15
   \<and> length (reply_links calm twenty_refs) = 15"
proof -
  have p: "python_set calm"
    by (simp add: python_set_def calm_def)
  have g: "distinct (generated_links twenty_refs) \<and> length (generated_links twenty_refs) = 20"
    by code_simp
  have l: "length (reply_links calm twenty_refs) = 15"
    by code_simp
  from reply_links_distinct_capped [OF p, of twenty_refs] p g l show ?thesis
    by simp
qed



text \<open>
  Claim C8, as the code has it. The links are a function of the content and of the order
  in which the set is listed, and of nothing else. For any two such orders the set of
  links before \<open>[:15]\<close> is the same, and when the content has at most 15 different links
  the set of links of the reply is the same too. For one order, the reply list is the
  same list.
\<close>

theorem extraction_set_order:
  assumes "python_set env1" and "python_set env2"
  shows "set (set_order env1 (generated_links c)) = set (set_order env2 (generated_links c))
       \<and> (card (set (generated_links c)) \<le> 15 \<longrightarrow>
            set (links_of env1 c) = set (links_of env2 c)
            \<and> set (reply_links env1 c) = set (reply_links env2 c))
       \<and> (set_order env1 = set_order env2 \<longrightarrow> reply_links env1 c = reply_links env2 c)"
proof -
  have s: "set (set_order env1 (generated_links c)) = set (set_order env2 (generated_links c))"
    using assms by (simp add: python_set_def)
  have few: "card (set (generated_links c)) \<le> 15 \<longrightarrow>
            set (links_of env1 c) = set (links_of env2 c)
            \<and> set (reply_links env1 c) = set (reply_links env2 c)"
  proof
    assume le: "card (set (generated_links c)) \<le> 15"
    have l1: "links_of env1 c = set_order env1 (generated_links c)"
      using assms(1) le by (rule links_of_few)
    have l2: "links_of env2 c = set_order env2 (generated_links c)"
      using assms(2) le by (rule links_of_few)
    have ls: "set (links_of env1 c) = set (links_of env2 c)"
      using s by (simp add: l1 l2)
    have d1: "distinct (links_of env1 c)" and d2: "distinct (links_of env2 c)"
      using assms by (simp_all add: links_of_distinct)
    have "length (links_of env1 c) = length (links_of env2 c)"
      using ls d1 d2 by (metis distinct_card)
    with ls have "set (reply_links env1 c) = set (reply_links env2 c)"
      by (simp add: reply_links_def Let_def)
    with ls show "set (links_of env1 c) = set (links_of env2 c)
            \<and> set (reply_links env1 c) = set (reply_links env2 c)"
      by simp
  qed
  have same: "set_order env1 = set_order env2 \<longrightarrow> reply_links env1 c = reply_links env2 c"
    by (simp add: reply_links_def links_of_def)
  from s few same show ?thesis
    by (intro conjI)
qed

theorem extraction_set_order_witness:
  "python_set calm \<and> python_set backwards
   \<and> card (set (generated_links three_refs)) \<le> 15
   \<and> set (links_of calm three_refs) = set (links_of backwards three_refs)
   \<and> links_of calm three_refs \<noteq> links_of backwards three_refs
   \<and> set (reply_links calm three_refs) = set (reply_links backwards three_refs)"
proof -
  have p1: "python_set calm"
    by (simp add: python_set_def calm_def)
  have p2: "python_set backwards"
    by (simp add: python_set_def backwards_def)
  have c: "card (set (generated_links three_refs)) \<le> 15"
    by code_simp
  have n: "links_of calm three_refs \<noteq> links_of backwards three_refs"
    by code_simp
  from extraction_set_order [OF p1 p2, of three_refs] p1 p2 c n show ?thesis
    by simp
qed

text \<open>
  Claim C8 as stated fails when the content has more than 15 different links: which 15
  remain after \<open>[:15]\<close> depends on the order of the set. With 16 references, listing the
  set forwards drops the link of \<open>##16\<close>, listing it backwards keeps it.
\<close>

theorem extraction_truncated_counterexample:
  "python_set calm \<and> python_set backwards
   \<and> ''https://github.com/Pycord-Development/pycord/pull/16'' \<in> set (links_of backwards sixteen_refs)
   \<and> ''https://github.com/Pycord-Development/pycord/pull/16'' \<notin> set (links_of calm sixteen_refs)
   \<and> set (links_of calm sixteen_refs) \<noteq> set (links_of backwards sixteen_refs)"
proof -
  have p1: "python_set calm"
    by (simp add: python_set_def calm_def)
  have p2: "python_set backwards"
    by (simp add: python_set_def backwards_def)
  have i: "''https://github.com/Pycord-Development/pycord/pull/16'' \<in> set (links_of backwards sixteen_refs)"
    by code_simp
  have o: "''https://github.com/Pycord-Development/pycord/pull/16'' \<notin> set (links_of calm sixteen_refs)"
    by code_simp
  from i o have "set (links_of calm sixteen_refs) \<noteq> set (links_of backwards sixteen_refs)"
    by blast
  with p1 p2 i o show ?thesis
    by (intro conjI)
qed

end
